theory Spec2Isabelle
  imports Complex_Main "HOL-Library.Sublist"
begin

section \<open>Python string primitives\<close>

text \<open>
  A Python \<open>str\<close> is a sequence of code points. A \<open>char\<close> is read here as one code
  point below 256, so \<open>string\<close> covers the Latin-1 part of Python's strings; on that
  part \<open>str.lower\<close> maps code point to code point and \<open>str.strip\<close> removes the
  code points for which \<open>str.isspace\<close> holds.
\<close>

definition is_space :: "char \<Rightarrow> bool" where
  "is_space c = (let n = (of_char c :: nat) in
     (9 \<le> n \<and> n \<le> 13) \<or> (28 \<le> n \<and> n \<le> 32) \<or> n = 133 \<or> n = 160)"

definition lower_char :: "char \<Rightarrow> char" where
  "lower_char c = (let n = (of_char c :: nat) in
     if (65 \<le> n \<and> n \<le> 90) \<or> (192 \<le> n \<and> n \<le> 222 \<and> n \<noteq> 215)
     then char_of (n + 32) else c)"

definition lower :: "string \<Rightarrow> string" where
  "lower s = map lower_char s"

text \<open>\<open>s.strip()\<close>: leading and trailing whitespace removed.\<close>

definition strip :: "string \<Rightarrow> string" where
  "strip s = rev (dropWhile is_space (rev (dropWhile is_space s)))"

text \<open>
  \<open>text.split(sep)\<close> for a separator \<open>sep = s # rest\<close>: the occurrences of the
  separator are found from left to right without overlap, and the pieces between them
  are returned, empty pieces included. The separator is given as its first character
  and its rest, since Python refuses the empty separator and the program only passes
  the literals \<open>'\n\n'\<close> and \<open>'\n'\<close>.
\<close>

fun split_str :: "char \<Rightarrow> string \<Rightarrow> string \<Rightarrow> string list" where
  "split_str s rest [] = [[]]"
| "split_str s rest (c # cs) =
     (if prefix (s # rest) (c # cs) then [] # split_str s rest (drop (length rest) cs)
      else (case split_str s rest cs of
              [] \<Rightarrow> [[c]]
            | p # ps \<Rightarrow> (c # p) # ps))"

definition newline :: char where
  "newline = CHR 0x0A"

text \<open>\<open>text.split('\n\n')\<close> and \<open>text.split('\n')\<close>.\<close>

definition split_blank :: "string \<Rightarrow> string list" where
  "split_blank text = split_str newline [newline] text"

definition split_nl :: "string \<Rightarrow> string list" where
  "split_nl text = split_str newline [] text"

text \<open>\<open>k in s\<close> on strings: \<open>k\<close> occurs in \<open>s\<close> as a contiguous substring.\<close>

fun str_in :: "string \<Rightarrow> string \<Rightarrow> bool" where
  "str_in k [] = (k = [])"
| "str_in k (c # cs) = (prefix k (c # cs) \<or> str_in k cs)"

text \<open>\<open>s.endswith(k)\<close>.\<close>

definition endswith :: "string \<Rightarrow> string \<Rightarrow> bool" where
  "endswith s k = suffix k s"

text \<open>
  \<open>s.replace(old, new)\<close> for a nonempty \<open>old = k # ks\<close>: every occurrence, from left
  to right without overlap, is replaced.
\<close>

fun replace :: "char \<Rightarrow> string \<Rightarrow> string \<Rightarrow> string \<Rightarrow> string" where
  "replace k ks new [] = []"
| "replace k ks new (c # cs) =
     (if prefix (k # ks) (c # cs) then new @ replace k ks new (drop (length ks) cs)
      else c # replace k ks new cs)"

text \<open>\<open>os.path.join(a, b)\<close> of \<open>posixpath\<close>, for two components.\<close>

definition path_join :: "string \<Rightarrow> string \<Rightarrow> string" where
  "path_join a b =
     (if prefix ''/'' b then b
      else if a = [] \<or> endswith a ''/'' then a @ b
      else a @ ''/'' @ b)"


section \<open>The paginated renderer: \<open>create_pdf_cover_letter\<close>\<close>

text \<open>
  The attributes the program sets on its two \<open>ParagraphStyle\<close> objects (the
  attributes inherited from the parent styles of the sample style sheet are left out).
  Sizes are in points.
\<close>

record paragraph_style =
  style_name :: string
  fontSize :: nat
  spaceAfter :: nat
  leading :: "nat option"
  textColor :: "string option"
  alignment :: "nat option"
  fontName :: string

definition title_style :: paragraph_style where
  "title_style = \<lparr>style_name = ''CustomTitle'', fontSize = 17, spaceAfter = 10,
     leading = None, textColor = Some ''#000000'', alignment = Some 1,
     fontName = ''Times-Bold''\<rparr>"

definition body_style :: paragraph_style where
  "body_style = \<lparr>style_name = ''CustomBody'', fontSize = 12, spaceAfter = 12,
     leading = Some 16, textColor = None, alignment = None,
     fontName = ''Times-Roman''\<rparr>"

text \<open>The flowables of a story: \<open>Paragraph(text, style)\<close> and \<open>Spacer(width, height)\<close>.\<close>

datatype flowable = Paragraph string paragraph_style | Spacer nat nat

text \<open>\<open>SimpleDocTemplate(output_filename, pagesize=letter, ...)\<close>; margins in inches.\<close>

record doc_template =
  filename :: string
  pagesize :: "nat \<times> nat"
  topMargin :: rat
  bottomMargin :: rat
  leftMargin :: rat
  rightMargin :: rat

definition pdf_doc :: "string \<Rightarrow> doc_template" where
  "pdf_doc output_filename = \<lparr>filename = output_filename, pagesize = (612, 792),
     topMargin = 1 / 2, bottomMargin = 3 / 4, leftMargin = 1, rightMargin = 1\<rparr>"

text \<open>
  The test of line 66:
  \<open>'\n' in para and any(keyword in para.lower() for keyword in ['email:', 'phone:', 'linkedin:'])\<close>.
\<close>

definition contact_keywords :: "string list" where
  "contact_keywords = [''email:'', ''phone:'', ''linkedin:'']"

definition is_contact_para :: "string \<Rightarrow> bool" where
  "is_contact_para para =
     (str_in [newline] para \<and> list_ex (\<lambda>keyword. str_in keyword (lower para)) contact_keywords)"

text \<open>The inner loop, lines 69 to 72: one paragraph and a 6pt spacer per nonblank line.\<close>

fun contact_lines_loop :: "string list \<Rightarrow> flowable list \<Rightarrow> flowable list" where
  "contact_lines_loop [] story = story"
| "contact_lines_loop (line # lines) story =
     contact_lines_loop lines
       (if strip line \<noteq> [] then story @ [Paragraph (strip line) body_style, Spacer 1 6]
        else story)"

text \<open>The outer loop, lines 63 to 76, over the pieces of \<open>split('\n\n')\<close>.\<close>

fun paragraphs_loop :: "string list \<Rightarrow> flowable list \<Rightarrow> flowable list" where
  "paragraphs_loop [] story = story"
| "paragraphs_loop (para # paragraphs) story =
     paragraphs_loop paragraphs
       (if strip para \<noteq> [] then
          (if is_contact_para para then contact_lines_loop (split_nl (strip para)) story
           else story @ [Paragraph (strip para) body_style, Spacer 1 12])
        else story)"

text \<open>The story handed to \<open>doc.build\<close>: the title, a spacer, then the loop's output.\<close>

definition pdf_story :: "string \<Rightarrow> flowable list" where
  "pdf_story cover_letter_text =
     paragraphs_loop (split_blank cover_letter_text)
       [Paragraph ''Cover Letter'' title_style, Spacer 1 6]"


subsection \<open>The blocks behind the story\<close>

text \<open>
  The loop takes one of two branches for each nonblank piece. The branch taken is
  recorded as a block: a piece rendered line by line is a \<open>ContactBlock\<close> holding its
  trimmed nonblank lines, any other nonblank piece is a \<open>ParagraphBlock\<close> holding its
  trimmed text. Lemma \<open>pdf_story_blocks\<close> below shows that the story is the rendering
  of these blocks.
\<close>

datatype block = ParagraphBlock string | ContactBlock "string list"

definition contact_lines :: "string \<Rightarrow> string list" where
  "contact_lines para = filter (\<lambda>l. l \<noteq> []) (map strip (split_nl (strip para)))"

definition classify :: "string \<Rightarrow> block option" where
  "classify para =
     (if strip para \<noteq> [] then
        (if is_contact_para para then Some (ContactBlock (contact_lines para))
         else Some (ParagraphBlock (strip para)))
      else None)"

definition segment_pdf :: "string \<Rightarrow> block list" where
  "segment_pdf cover_letter_text = List.map_filter classify (split_blank cover_letter_text)"

fun block_flowables :: "block \<Rightarrow> flowable list" where
  "block_flowables (ParagraphBlock t) = [Paragraph t body_style, Spacer 1 12]"
| "block_flowables (ContactBlock ls) =
     concat (map (\<lambda>l. [Paragraph l body_style, Spacer 1 6]) ls)"

fun is_contact_block :: "block \<Rightarrow> bool" where
  "is_contact_block (ContactBlock ls) = True"
| "is_contact_block (ParagraphBlock t) = False"

text \<open>The nonblank pieces of a letter, in order.\<close>

definition nonblank_groups :: "string \<Rightarrow> string list" where
  "nonblank_groups cover_letter_text =
     filter (\<lambda>g. strip g \<noteq> []) (split_blank cover_letter_text)"


subsection \<open>The heuristic as the specification words it\<close>

text \<open>
  The specification's rule for a contact block: the group has an internal newline and
  one of its lines, lowercased, starts with one of the four default labels.
\<close>

definition spec_contact_labels :: "string list" where
  "spec_contact_labels = [''email:'', ''phone:'', ''linkedin:'', ''website:'']"

definition spec_is_contact_group :: "string \<Rightarrow> bool" where
  "spec_is_contact_group g =
     (str_in [newline] (strip g) \<and>
      list_ex (\<lambda>line. list_ex (\<lambda>label. prefix label (lower line)) spec_contact_labels)
        (split_nl g))"

text \<open>A group contains a contact label: one of the four labels occurs in its lowercased text.\<close>

definition contains_contact_label :: "string \<Rightarrow> bool" where
  "contains_contact_label g = list_ex (\<lambda>label. str_in label (lower g)) spec_contact_labels"


subsection \<open>The groups as the specification words them\<close>

text \<open>
  The specification splits the text on runs of two or more newlines, where the program
  splits on each pair of newlines. \<open>spec_groups\<close> is the specification's split; a
  piece of the program's split is related to a group of the specification when it is
  that group, or that group after one newline left over from a run of odd length.
\<close>

function spec_groups :: "string \<Rightarrow> string list" where
  "spec_groups [] = [[]]"
| "spec_groups (c # cs) =
     (if c = newline \<and> prefix [newline] cs
      then [] # spec_groups (dropWhile (\<lambda>x. x = newline) cs)
      else (case spec_groups cs of
              [] \<Rightarrow> [[c]]
            | p # ps \<Rightarrow> (c # p) # ps))"
  by pat_completeness auto
termination
  by (relation "measure length") (auto simp: le_imp_less_Suc length_dropWhile_le)

definition spec_nonblank_groups :: "string \<Rightarrow> string list" where
  "spec_nonblank_groups text = filter (\<lambda>g. strip g \<noteq> []) (spec_groups text)"

definition piece_rel :: "string \<Rightarrow> string \<Rightarrow> bool" where
  "piece_rel a b = (a = b \<or> a = newline # b)"


section \<open>The word-processor renderer: \<open>create_pages_document\<close>\<close>

datatype wd_align = LEFT | CENTER | RIGHT | JUSTIFY

text \<open>A run with the font attributes the program sets (\<open>None\<close>: left unset).\<close>

record run =
  run_text :: string
  font_name :: "string option"
  font_size :: "nat option"
  font_bold :: "bool option"
  font_rgb :: "(nat \<times> nat \<times> nat) option"

record docx_paragraph =
  runs :: "run list"
  par_alignment :: "wd_align option"

text \<open>The margins of a section, in inches.\<close>

record docx_section =
  top_margin :: rat
  bottom_margin :: rat
  left_margin :: rat
  right_margin :: rat

record docx_document =
  sections :: "docx_section list"
  body :: "docx_paragraph list"

text \<open>
  \<open>Document()\<close>: the library's default template, one section and no paragraph. Its
  margins are overwritten by the program before anything reads them.
\<close>

definition new_document :: docx_document where
  "new_document = \<lparr>sections = [\<lparr>top_margin = 1, bottom_margin = 1,
     left_margin = 5 / 4, right_margin = 5 / 4\<rparr>], body = []\<rparr>"

definition add_run :: "string \<Rightarrow> run" where
  "add_run t = \<lparr>run_text = t, font_name = None, font_size = None, font_bold = None,
     font_rgb = None\<rparr>"

text \<open>\<open>doc.add_paragraph(text)\<close>: the new paragraph has one run when the text is nonempty.\<close>

definition add_paragraph :: "string \<Rightarrow> docx_paragraph" where
  "add_paragraph t = \<lparr>runs = (if t = [] then [] else [add_run t]), par_alignment = None\<rparr>"

text \<open>Lines 102 to 106.\<close>

definition set_margins :: "docx_section \<Rightarrow> docx_section" where
  "set_margins sec = \<lparr>top_margin = 4 / 5, bottom_margin = 4 / 5,
     left_margin = 1, right_margin = 1\<rparr>"

text \<open>Lines 109 to 115.\<close>

definition title_paragraph :: docx_paragraph where
  "title_paragraph = \<lparr>runs = [\<lparr>run_text = ''Cover Letter'',
     font_name = Some ''Times New Roman'', font_size = Some 17, font_bold = Some True,
     font_rgb = Some (0, 0, 0)\<rparr>], par_alignment = Some CENTER\<rparr>"

text \<open>Lines 124 to 130.\<close>

definition style_run :: "run \<Rightarrow> run" where
  "style_run r = r\<lparr>font_name := Some ''Times New Roman'', font_size := Some 12\<rparr>"

definition body_paragraph :: "string \<Rightarrow> docx_paragraph" where
  "body_paragraph t = \<lparr>runs = map style_run (runs (add_paragraph t)),
     par_alignment = Some JUSTIFY\<rparr>"

text \<open>The loop of lines 122 to 130.\<close>

fun docx_loop :: "string list \<Rightarrow> docx_document \<Rightarrow> docx_document" where
  "docx_loop [] doc = doc"
| "docx_loop (para # paragraphs) doc =
     docx_loop paragraphs
       (if strip para \<noteq> [] then doc\<lparr>body := body doc @ [body_paragraph (strip para)]\<rparr>
        else doc)"

text \<open>The document handed to \<open>doc.save\<close>.\<close>

definition pages_document :: "string \<Rightarrow> docx_document" where
  "pages_document cover_letter_text =
     docx_loop (split_blank cover_letter_text)
       \<lparr>sections = map set_margins (sections new_document),
        body = body new_document @ [title_paragraph, add_paragraph []]\<rparr>"


section \<open>Failure and effects\<close>

text \<open>
  Exceptions, by the classes the handlers of the program tell apart: \<open>ImportError\<close>,
  any other subclass of \<open>Exception\<close>, and an exception that is no \<open>Exception\<close> at
  all (\<open>KeyboardInterrupt\<close>, \<open>SystemExit\<close>), which \<open>except Exception\<close> lets through.
\<close>

datatype exn = ImportError | OtherException | NotAnException

text \<open>\<open>isinstance(e, Exception)\<close>.\<close>

fun is_Exception :: "exn \<Rightarrow> bool" where
  "is_Exception ImportError = True"
| "is_Exception OtherException = True"
| "is_Exception NotAnException = False"

text \<open>
  The lines the program prints, one constructor for each \<open>print\<close> call of the source,
  and the effects of a run in the order they happen.
\<close>

datatype message =
    CoverLetterSaved string
  | BlankAndRule
  | Rule
  | PdfHeading
  | ReportlabMissing
  | PdfError
  | PdfCreated string
  | PdfFailed
  | PagesHeading
  | DocxMissing
  | PagesError
  | PagesCreated string
  | PagesHint
  | PagesFailed
  | AllSaved string
  | FatalError

datatype effect =
    WriteText string string
  | BuildPdf doc_template "flowable list"
  | SaveDocx string docx_document
  | Print message
  | PrintStderr message

text \<open>
  What the program cannot decide by itself is read from a \<open>world\<close>: for each call that
  leaves the program (writing the text file, printing a line, importing a backend,
  handing a text to a backend, writing an artifact) the exception the call raises, or
  \<open>None\<close> when it returns.
\<close>

record world =
  text_write :: "string \<Rightarrow> string \<Rightarrow> exn option"
  stdout_print :: "message \<Rightarrow> exn option"
  stderr_print :: "message \<Rightarrow> exn option"
  reportlab_import :: "exn option"
  reportlab_paragraph :: "string \<Rightarrow> exn option"
  reportlab_build :: "doc_template \<Rightarrow> flowable list \<Rightarrow> exn option"
  docx_import :: "exn option"
  docx_add_text :: "string \<Rightarrow> exn option"
  docx_save :: "string \<Rightarrow> docx_document \<Rightarrow> exn option"

definition text_write_ok :: "world \<Rightarrow> string \<Rightarrow> string \<Rightarrow> bool" where
  "text_write_ok w path content = (text_write w path content = None)"

text \<open>
  A piece of the program, run: it returns a value or raises, and has produced effects
  up to that point. \<open>and_then\<close> is one statement after another: when the first
  raises, the second is not run.
\<close>

type_synonym 'a outcome = "(exn + 'a) \<times> effect list"

definition and_then :: "'a outcome \<Rightarrow> ('a \<Rightarrow> 'b outcome) \<Rightarrow> 'b outcome" where
  "and_then r f =
     (case r of
        (Inl e, effects) \<Rightarrow> (Inl e, effects)
      | (Inr x, effects) \<Rightarrow> (case f x of (res, later) \<Rightarrow> (res, effects @ later)))"

text \<open>\<open>print(m)\<close>, and several \<open>print\<close> calls in a row.\<close>

definition py_print :: "world \<Rightarrow> message \<Rightarrow> unit outcome" where
  "py_print w m =
     (case stdout_print w m of
        None \<Rightarrow> (Inr (), [Print m])
      | Some e \<Rightarrow> (Inl e, []))"

fun py_prints :: "world \<Rightarrow> message list \<Rightarrow> unit outcome" where
  "py_prints w [] = (Inr (), [])"
| "py_prints w (m # ms) = and_then (py_print w m) (\<lambda>u. py_prints w ms)"

text \<open>The first exception that a call raises over a list of arguments taken in order.\<close>

fun first_raise :: "('a \<Rightarrow> exn option) \<Rightarrow> 'a list \<Rightarrow> exn option" where
  "first_raise f [] = None"
| "first_raise f (x # xs) = (case f x of Some e \<Rightarrow> Some e | None \<Rightarrow> first_raise f xs)"

fun flowable_raises :: "world \<Rightarrow> flowable \<Rightarrow> exn option" where
  "flowable_raises w (Paragraph t st) = reportlab_paragraph w t"
| "flowable_raises w (Spacer a b) = None"

text \<open>
  The body of the \<open>try\<close> of \<open>create_pdf_cover_letter\<close>, lines 16 to 80: the imports,
  the flowables in the order of the story, then \<open>doc.build\<close>. \<open>pdf_raised\<close> is the
  exception that ends the body, if any. Whichever statement raises, nothing has been
  written yet, since \<open>doc.build\<close> is the last one.
\<close>

definition pdf_raised :: "world \<Rightarrow> string \<Rightarrow> string \<Rightarrow> exn option" where
  "pdf_raised w cover_letter_text output_filename =
     (case reportlab_import w of
        Some e \<Rightarrow> Some e
      | None \<Rightarrow>
          (case first_raise (flowable_raises w) (pdf_story cover_letter_text) of
             Some e \<Rightarrow> Some e
           | None \<Rightarrow>
               reportlab_build w (pdf_doc output_filename) (pdf_story cover_letter_text)))"

definition pdf_try_body :: "world \<Rightarrow> string \<Rightarrow> string \<Rightarrow> unit outcome" where
  "pdf_try_body w cover_letter_text output_filename =
     (case pdf_raised w cover_letter_text output_filename of
        Some e \<Rightarrow> (Inl e, [])
      | None \<Rightarrow> (Inr (), [BuildPdf (pdf_doc output_filename) (pdf_story cover_letter_text)]))"

text \<open>
  The \<open>except\<close> clauses of lines 82 to 87, in order: the line that the matching clause
  prints, or \<open>None\<close> when no clause matches the exception.
\<close>

fun pdf_handler :: "exn \<Rightarrow> message option" where
  "pdf_handler ImportError = Some ReportlabMissing"
| "pdf_handler OtherException = Some PdfError"
| "pdf_handler NotAnException = None"

text \<open>
  The function: the body returns \<open>True\<close>; a matching clause prints its line and returns
  \<open>False\<close>. The \<open>print\<close> of a clause is outside the \<open>try\<close>, so an exception it
  raises leaves the function, as does an exception that no clause matches.
\<close>

definition create_pdf_cover_letter :: "world \<Rightarrow> string \<Rightarrow> string \<Rightarrow> bool outcome" where
  "create_pdf_cover_letter w cover_letter_text output_filename =
     (case pdf_try_body w cover_letter_text output_filename of
        (Inr u, effects) \<Rightarrow> (Inr True, effects)
      | (Inl e, effects) \<Rightarrow>
          (case pdf_handler e of
             None \<Rightarrow> (Inl e, effects)
           | Some m \<Rightarrow>
               and_then (Inr (), effects)
                 (\<lambda>u. and_then (py_print w m) (\<lambda>u. (Inr False, [])))))"

text \<open>
  The body of the \<open>try\<close> of \<open>create_pages_document\<close>, lines 93 to 134: the imports,
  the texts handed to the library in the order of the document, then \<open>doc.save\<close>.
\<close>

definition docx_raised :: "world \<Rightarrow> string \<Rightarrow> string \<Rightarrow> exn option" where
  "docx_raised w cover_letter_text output_filename =
     (case docx_import w of
        Some e \<Rightarrow> Some e
      | None \<Rightarrow>
          (case first_raise (docx_add_text w)
                  (map run_text (concat (map runs (body (pages_document cover_letter_text))))) of
             Some e \<Rightarrow> Some e
           | None \<Rightarrow> docx_save w output_filename (pages_document cover_letter_text)))"

definition docx_try_body :: "world \<Rightarrow> string \<Rightarrow> string \<Rightarrow> unit outcome" where
  "docx_try_body w cover_letter_text output_filename =
     (case docx_raised w cover_letter_text output_filename of
        Some e \<Rightarrow> (Inl e, [])
      | None \<Rightarrow> (Inr (), [SaveDocx output_filename (pages_document cover_letter_text)]))"

text \<open>The \<open>except\<close> clauses of lines 136 to 141.\<close>

fun pages_handler :: "exn \<Rightarrow> message option" where
  "pages_handler ImportError = Some DocxMissing"
| "pages_handler OtherException = Some PagesError"
| "pages_handler NotAnException = None"

definition create_pages_document :: "world \<Rightarrow> string \<Rightarrow> string \<Rightarrow> bool outcome" where
  "create_pages_document w cover_letter_text output_filename =
     (case docx_try_body w cover_letter_text output_filename of
        (Inr u, effects) \<Rightarrow> (Inr True, effects)
      | (Inl e, effects) \<Rightarrow>
          (case pages_handler e of
             None \<Rightarrow> (Inl e, effects)
           | Some m \<Rightarrow>
               and_then (Inr (), effects)
                 (\<lambda>u. and_then (py_print w m) (\<lambda>u. (Inr False, [])))))"


section \<open>The output part of \<open>main\<close>, lines 216 to 265\<close>

text \<open>
  The parsed arguments that the output part reads. \<open>if args.output:\<close> holds when the
  option was given with a nonempty value.
\<close>

record args =
  arg_output :: "string option"
  arg_no_pdf :: bool

definition txt_filename :: "string \<Rightarrow> string option \<Rightarrow> string" where
  "txt_filename output_dir out =
     (case out of
        None \<Rightarrow> path_join output_dir ''coverLetter.txt''
      | Some name \<Rightarrow>
          if name \<noteq> [] then path_join output_dir name
          else path_join output_dir ''coverLetter.txt'')"

definition pdf_filename :: "string \<Rightarrow> string option \<Rightarrow> string" where
  "pdf_filename output_dir out =
     (case out of
        None \<Rightarrow> path_join output_dir ''coverLetter.pdf''
      | Some name \<Rightarrow>
          if name \<noteq> [] then
            path_join output_dir
              (replace CHR ''.'' ''doc'' ''.pdf'' (replace CHR ''.'' ''txt'' ''.pdf'' name))
          else path_join output_dir ''coverLetter.pdf'')"

definition pages_filename :: "string \<Rightarrow> string option \<Rightarrow> string" where
  "pages_filename output_dir out =
     (case out of
        None \<Rightarrow> path_join output_dir ''coverLetter.docx''
      | Some name \<Rightarrow>
          if name \<noteq> [] then
            path_join output_dir
              (replace CHR ''.'' ''pdf'' ''.docx'' (replace CHR ''.'' ''txt'' ''.docx'' name))
          else path_join output_dir ''coverLetter.docx'')"

text \<open>Lines 219 and 220, or 225 and 226: the letter is written as it is.\<close>

definition write_text :: "world \<Rightarrow> string \<Rightarrow> string \<Rightarrow> unit outcome" where
  "write_text w path content =
     (case text_write w path content of
        None \<Rightarrow> (Inr (), [WriteText path content])
      | Some e \<Rightarrow> (Inl e, []))"

text \<open>Lines 230 to 243.\<close>

definition pdf_step :: "world \<Rightarrow> string \<Rightarrow> args \<Rightarrow> string \<Rightarrow> unit outcome" where
  "pdf_step w output_dir a cover_letter =
     (if arg_no_pdf a then (Inr (), [])
      else
        and_then (py_prints w [BlankAndRule, PdfHeading, Rule])
          (\<lambda>u. and_then
             (create_pdf_cover_letter w cover_letter (pdf_filename output_dir (arg_output a)))
             (\<lambda>ok. if ok
                then py_print w (PdfCreated (pdf_filename output_dir (arg_output a)))
                else py_print w PdfFailed)))"

text \<open>Lines 246 to 259.\<close>

definition pages_step :: "world \<Rightarrow> string \<Rightarrow> args \<Rightarrow> string \<Rightarrow> unit outcome" where
  "pages_step w output_dir a cover_letter =
     and_then (py_prints w [BlankAndRule, PagesHeading, Rule])
       (\<lambda>u. and_then
          (create_pages_document w cover_letter (pages_filename output_dir (arg_output a)))
          (\<lambda>ok. if ok
             then py_prints w [PagesCreated (pages_filename output_dir (arg_output a)),
                               PagesHint]
             else py_print w PagesFailed))"

text \<open>
  The body of the \<open>try\<close> of \<open>main\<close> from line 216 on, given the output directory and
  the letter that the earlier lines produced. Nothing in it has a handler of its own
  but the two renderer calls.
\<close>

definition main_try_body :: "world \<Rightarrow> string \<Rightarrow> args \<Rightarrow> string \<Rightarrow> unit outcome" where
  "main_try_body w output_dir a cover_letter =
     and_then (write_text w (txt_filename output_dir (arg_output a)) cover_letter)
       (\<lambda>u. and_then (py_print w (CoverLetterSaved (txt_filename output_dir (arg_output a))))
          (\<lambda>u. and_then (pdf_step w output_dir a cover_letter)
             (\<lambda>u. and_then (pages_step w output_dir a cover_letter)
                (\<lambda>u. py_print w (AllSaved output_dir)))))"

text \<open>
  How a run ends: \<open>main\<close> returns, or \<open>sys.exit\<close> is called with a status, or an
  exception leaves \<open>main\<close>.
\<close>

datatype run_end = Completed | Exit nat | Uncaught exn

text \<open>
  The run with the handler of lines 263 to 265: an \<open>Exception\<close> from the body is
  printed to the standard error and the run exits with status 1. The result is how
  the run ends and the effects in the order they happened.
\<close>

definition main :: "world \<Rightarrow> string \<Rightarrow> args \<Rightarrow> string \<Rightarrow> run_end \<times> effect list" where
  "main w output_dir a cover_letter =
     (case main_try_body w output_dir a cover_letter of
        (Inr u, effects) \<Rightarrow> (Completed, effects)
      | (Inl e, effects) \<Rightarrow>
          if is_Exception e then
            (case stderr_print w FatalError of
               None \<Rightarrow> (Exit 1, effects @ [PrintStderr FatalError])
             | Some e' \<Rightarrow> (Uncaught e', effects))
          else (Uncaught e, effects))"


section \<open>The source reader: \<open>_read_file_or_text\<close> and \<open>_read_pdf_file\<close>\<close>

text \<open>
  What a path names. For a regular file: the result of opening and reading it as UTF-8
  text (\<open>None\<close> when that raises), and the result of parsing it as a PDF (\<open>None\<close> when
  that raises), a list of pages, each with the result of \<open>extract_text()\<close> (\<open>None\<close> when
  that raises).
\<close>

record file_data =
  utf8_text :: "string option"
  pdf_pages :: "string option list option"

datatype fs_node = Directory | RegularFile file_data

type_synonym filesystem = "string \<Rightarrow> fs_node option"

datatype read_exn =
    OpenFailed
  | ExtractFailed
  | ErrorReadingPdf string read_exn
  | ErrorReadingFile string read_exn

text \<open>The loop of lines 153 and 154: \<open>text += page.extract_text() + "\n"\<close>.\<close>

fun extract_loop :: "string option list \<Rightarrow> string \<Rightarrow> read_exn + string" where
  "extract_loop [] text = Inr text"
| "extract_loop (page # pages) text =
     (case page of
        None \<Rightarrow> Inl ExtractFailed
      | Some t \<Rightarrow> extract_loop pages (text @ t @ [newline]))"

definition read_pdf_file :: "filesystem \<Rightarrow> string \<Rightarrow> read_exn + string" where
  "read_pdf_file fs pdf_path =
     (case fs pdf_path of
        Some (RegularFile d) \<Rightarrow>
          (case pdf_pages d of
             None \<Rightarrow> Inl (ErrorReadingPdf pdf_path OpenFailed)
           | Some pages \<Rightarrow>
               (case extract_loop pages [] of
                  Inl e \<Rightarrow> Inl (ErrorReadingPdf pdf_path e)
                | Inr text \<Rightarrow> Inr (strip text)))
      | _ \<Rightarrow> Inl (ErrorReadingPdf pdf_path OpenFailed))"

text \<open>\<open>os.path.isfile\<close>: the path names a regular file.\<close>

definition isfile :: "filesystem \<Rightarrow> string \<Rightarrow> bool" where
  "isfile fs path = (case fs path of Some (RegularFile d) \<Rightarrow> True | _ \<Rightarrow> False)"

definition read_file_or_text :: "filesystem \<Rightarrow> string \<Rightarrow> read_exn + string" where
  "read_file_or_text fs input_data =
     (if isfile fs input_data then
        (if endswith (lower input_data) ''.pdf'' then
           (case read_pdf_file fs input_data of
              Inl e \<Rightarrow> Inl (ErrorReadingFile input_data e)
            | Inr text \<Rightarrow> Inr text)
         else
           (case fs input_data of
              Some (RegularFile d) \<Rightarrow>
                (case utf8_text d of
                   None \<Rightarrow> Inl (ErrorReadingFile input_data OpenFailed)
                 | Some text \<Rightarrow> Inr text)
            | _ \<Rightarrow> Inl (ErrorReadingFile input_data OpenFailed)))
      else Inr input_data)"


section \<open>Concrete inputs\<close>

text \<open>A file system with one PDF of two pages, named with an upper-case suffix.\<close>

definition demo_fs :: filesystem where
  "demo_fs = (\<lambda>path. if path = ''cv.PDF''
     then Some (RegularFile \<lparr>utf8_text = None,
            pdf_pages = Some [Some '' Page one'', Some ''Page two '']\<rparr>)
     else None)"


text \<open>
  Worlds: one where every call returns; one where the text file cannot be written; one
  without the PDF backend; and one without either backend whose standard output is
  closed.
\<close>

definition healthy_world :: world where
  "healthy_world = \<lparr>text_write = (\<lambda>path content. None), stdout_print = (\<lambda>m. None),
     stderr_print = (\<lambda>m. None), reportlab_import = None,
     reportlab_paragraph = (\<lambda>t. None), reportlab_build = (\<lambda>doc story. None),
     docx_import = None, docx_add_text = (\<lambda>t. None),
     docx_save = (\<lambda>path doc. None)\<rparr>"



definition closed_stdout_world :: world where
  "closed_stdout_world = healthy_world\<lparr>reportlab_import := Some ImportError,
     docx_import := Some ImportError, stdout_print := (\<lambda>m. Some OtherException)\<rparr>"



section \<open>Lemmas on the string primitives\<close>

lemma str_in_sublist: "str_in k s = sublist k s"
  by (induction s) (auto simp: sublist_Cons_right)

lemma str_in_iff: "str_in k s \<longleftrightarrow> (\<exists>pre post. s = pre @ k @ post)"
  by (simp add: str_in_sublist sublist_def)

lemma str_in_newline: "str_in [newline] s \<longleftrightarrow> newline \<in> set s"
  by (induction s) auto

lemma rev_trailing_split:
  "rev (dropWhile P (rev xs)) @ rev (takeWhile P (rev xs)) = xs"
proof -
  have "rev (takeWhile P (rev xs) @ dropWhile P (rev xs)) = rev (rev xs)"
    by (simp only: takeWhile_dropWhile_id)
  then show ?thesis by (simp only: rev_append rev_rev_ident)
qed

lemma strip_no_leading_space: "strip s \<noteq> [] \<Longrightarrow> \<not> is_space (hd (strip s))"
proof -
  assume ne: "strip s \<noteq> []"
  let ?t = "dropWhile is_space s"
  let ?u = "dropWhile is_space (rev ?t)"
  have su: "strip s = rev ?u" by (simp add: strip_def)
  have u_ne: "rev ?u \<noteq> []" using ne su by simp
  have t_ne: "?t \<noteq> []"
  proof
    assume e: "?t = []"
    have "strip s = []" unfolding strip_def e by simp
    with ne show False by simp
  qed
  have hd_t: "\<not> is_space (hd ?t)" using t_ne by (rule hd_dropWhile)
  have "?t = rev ?u @ rev (takeWhile is_space (rev ?t))"
    by (rule rev_trailing_split [symmetric])
  then have "hd ?t = hd (rev ?u @ rev (takeWhile is_space (rev ?t)))" by (rule arg_cong)
  then have "hd ?t = hd (rev ?u)" using u_ne by simp
  then show ?thesis using hd_t su by simp
qed

lemma strip_no_trailing_space: "strip s \<noteq> [] \<Longrightarrow> \<not> is_space (last (strip s))"
proof -
  assume ne: "strip s \<noteq> []"
  then have "dropWhile is_space (rev (dropWhile is_space s)) \<noteq> []"
    by (simp add: strip_def)
  then have "\<not> is_space (hd (dropWhile is_space (rev (dropWhile is_space s))))"
    by (rule hd_dropWhile)
  then show ?thesis using ne by (simp add: strip_def last_rev)
qed

lemma strip_Nil: "strip [] = []"
  by (simp add: strip_def)

lemma strip_idem: "strip (strip s) = strip s"
proof (cases "strip s = []")
  case True
  then show ?thesis by (simp add: strip_Nil)
next
  case False
  have a: "dropWhile is_space (strip s) = strip s"
    using strip_no_leading_space [OF False] False by (cases "strip s") auto
  have "\<not> is_space (hd (rev (strip s)))"
    using strip_no_trailing_space [OF False] False by (simp add: hd_rev)
  then have b: "dropWhile is_space (rev (strip s)) = rev (strip s)"
    using False by (cases "rev (strip s)") auto
  show ?thesis
    unfolding strip_def [of "strip s"] a b by simp
qed


section \<open>The story as a rendering of blocks\<close>

lemma contact_lines_loop_eq:
  "contact_lines_loop ls story =
     story @ concat (map (\<lambda>l. [Paragraph l body_style, Spacer 1 6])
                      (filter (\<lambda>l. l \<noteq> []) (map strip ls)))"
  by (induction ls arbitrary: story) auto

lemma contact_lines_loop_block:
  "contact_lines_loop (split_nl (strip para)) story =
     story @ block_flowables (ContactBlock (contact_lines para))"
  by (simp add: contact_lines_loop_eq contact_lines_def)

lemma map_filter_Cons_Some: "f x = Some y \<Longrightarrow> List.map_filter f (x # xs) = y # List.map_filter f xs"
  by (simp add: List.map_filter_def)

lemma map_filter_Cons_None: "f x = None \<Longrightarrow> List.map_filter f (x # xs) = List.map_filter f xs"
  by (simp add: List.map_filter_def)

lemma paragraphs_loop_eq:
  "paragraphs_loop ps story = story @ concat (map block_flowables (List.map_filter classify ps))"
proof (induction ps arbitrary: story)
  case Nil
  show ?case by (simp add: List.map_filter_def)
next
  case (Cons para ps)
  show ?case
  proof (cases "strip para = []")
    case True
    then have "classify para = None" by (simp add: classify_def)
    then show ?thesis using True Cons by (simp add: map_filter_Cons_None)
  next
    case False
    show ?thesis
    proof (cases "is_contact_para para")
      case True
      have "classify para = Some (ContactBlock (contact_lines para))"
        using False True by (simp add: classify_def)
      then show ?thesis
        using False True Cons
        by (simp add: map_filter_Cons_Some contact_lines_loop_block del: block_flowables.simps)
    next
      case nc: False
      have "classify para = Some (ParagraphBlock (strip para))"
        using False nc by (simp add: classify_def)
      then show ?thesis
        using False nc Cons by (simp add: map_filter_Cons_Some)
    qed
  qed
qed

lemma pdf_story_blocks:
  "pdf_story text = [Paragraph ''Cover Letter'' title_style, Spacer 1 6] @
     concat (map block_flowables (segment_pdf text))"
  by (simp add: pdf_story_def segment_pdf_def paragraphs_loop_eq)

lemma segment_pdf_groups:
  "segment_pdf text =
     map (\<lambda>g. if is_contact_para g then ContactBlock (contact_lines g)
              else ParagraphBlock (strip g)) (nonblank_groups text)"
proof -
  have "List.map_filter classify ps =
     map (\<lambda>g. if is_contact_para g then ContactBlock (contact_lines g)
              else ParagraphBlock (strip g)) (filter (\<lambda>g. strip g \<noteq> []) ps)" for ps
    by (induction ps) (auto simp: map_filter_Cons_None map_filter_Cons_Some classify_def List.map_filter_def)
  then show ?thesis by (simp add: segment_pdf_def nonblank_groups_def)
qed

lemma contact_flowables_spacers:
  "Spacer 1 12 \<notin> set (block_flowables (ContactBlock ls))"
  by (induction ls) auto

lemma contact_not_paragraph_flowables:
  "block_flowables (ContactBlock ls) \<noteq> block_flowables (ParagraphBlock t)"
proof
  assume "block_flowables (ContactBlock ls) = block_flowables (ParagraphBlock t)"
  then have "Spacer 1 12 \<in> set (block_flowables (ContactBlock ls))" by simp
  then show False using contact_flowables_spacers by blast
qed

lemma is_contact_para_iff:
  "is_contact_para para \<longleftrightarrow>
     newline \<in> set para \<and>
     (\<exists>keyword pre post. keyword \<in> {''email:'', ''phone:'', ''linkedin:''} \<and>
        lower para = pre @ keyword @ post)"
proof -
  have k: "set contact_keywords = {''email:'', ''phone:'', ''linkedin:''}"
    by (simp add: contact_keywords_def)
  have "list_ex (\<lambda>keyword. str_in keyword (lower para)) contact_keywords \<longleftrightarrow>
        (\<exists>keyword. keyword \<in> set contact_keywords \<and>
           (\<exists>pre post. lower para = pre @ keyword @ post))"
    by (simp only: list_ex_iff str_in_iff Bex_def)
  then show ?thesis
    unfolding is_contact_para_def str_in_newline k by blast
qed

section \<open>The claims on the segmenter\<close>

text \<open>
  C1 (as the program has it). A nonblank piece of \<open>split('\n\n')\<close> is rendered as a
  contact block, one paragraph and a 6pt spacer per nonblank line, exactly when it
  contains a newline character and its lowercased text contains one of \<open>email:\<close>,
  \<open>phone:\<close>, \<open>linkedin:\<close> anywhere; every other nonblank piece is rendered as one
  paragraph with a 12pt spacer. The two renderings are never equal, so the story tells
  which branch was taken. The label \<open>website:\<close> is not among the keywords and the
  keyword need not start a line.
\<close>

theorem contact_block_rule:
  assumes "strip para \<noteq> []"
  shows "paragraphs_loop [para] story =
           (if newline \<in> set para \<and>
               (\<exists>keyword pre post. keyword \<in> {''email:'', ''phone:'', ''linkedin:''} \<and>
                  lower para = pre @ keyword @ post)
            then story @ block_flowables (ContactBlock (contact_lines para))
            else story @ block_flowables (ParagraphBlock (strip para)))
         \<and> block_flowables (ContactBlock (contact_lines para)) \<noteq>
             block_flowables (ParagraphBlock (strip para))"
proof -
  have "paragraphs_loop [para] story =
          (if is_contact_para para
           then story @ block_flowables (ContactBlock (contact_lines para))
           else story @ block_flowables (ParagraphBlock (strip para)))"
    using assms by (simp add: contact_lines_loop_block)
  then have "paragraphs_loop [para] story =
           (if newline \<in> set para \<and>
               (\<exists>keyword pre post. keyword \<in> {''email:'', ''phone:'', ''linkedin:''} \<and>
                  lower para = pre @ keyword @ post)
            then story @ block_flowables (ContactBlock (contact_lines para))
            else story @ block_flowables (ParagraphBlock (strip para)))"
    unfolding is_contact_para_iff .
  then show ?thesis
    using contact_not_paragraph_flowables by (rule conjI)
qed


theorem contact_block_rule_witness:
  "strip ''EMAIL: a@b.com\<newline>Phone: 555'' \<noteq> [] \<and>
   paragraphs_loop [''EMAIL: a@b.com\<newline>Phone: 555''] [] =
     [Paragraph ''EMAIL: a@b.com'' body_style, Spacer 1 6,
      Paragraph ''Phone: 555'' body_style, Spacer 1 6]"
proof -
  let ?g = "''EMAIL: a@b.com\<newline>Phone: 555''"
  have h: "strip ?g \<noteq> []" by code_simp
  have c: "is_contact_para ?g" by code_simp
  have f: "block_flowables (ContactBlock (contact_lines ?g)) =
     [Paragraph ''EMAIL: a@b.com'' body_style, Spacer 1 6,
      Paragraph ''Phone: 555'' body_style, Spacer 1 6]" by code_simp
  have r: "paragraphs_loop [?g] [] = [] @ block_flowables (ContactBlock (contact_lines ?g))"
    using contact_block_rule [OF h, of "[]"] c [unfolded is_contact_para_iff]
    by (simp only: if_True simp_thms)
  show ?thesis using h r f by (simp only: append_Nil simp_thms)
qed

text \<open>
  The rule as the specification words it fails in both directions: a group whose only
  label is \<open>Website:\<close> at a line start is rendered as an ordinary paragraph, and a
  group with \<open>email:\<close> in the middle of a line is rendered line by line.
\<close>

theorem contact_block_rule_counterexample:
  "spec_is_contact_group ''Website: w.com\<newline>See you'' \<and>
   pdf_story ''Website: w.com\<newline>See you'' =
     [Paragraph ''Cover Letter'' title_style, Spacer 1 6,
      Paragraph ''Website: w.com\<newline>See you'' body_style, Spacer 1 12] \<and>
   \<not> spec_is_contact_group ''my email: a@b.com\<newline>bye'' \<and>
   pdf_story ''my email: a@b.com\<newline>bye'' =
     [Paragraph ''Cover Letter'' title_style, Spacer 1 6,
      Paragraph ''my email: a@b.com'' body_style, Spacer 1 6,
      Paragraph ''bye'' body_style, Spacer 1 6]"
  by code_simp


section \<open>The word-processor document in closed form\<close>

lemma docx_loop_eq:
  "docx_loop ps doc =
     doc\<lparr>body := body doc @ map (\<lambda>g. body_paragraph (strip g)) (filter (\<lambda>g. strip g \<noteq> []) ps)\<rparr>"
  by (induction ps arbitrary: doc) auto

lemma pages_document_eq:
  "pages_document text =
     \<lparr>sections = map set_margins (sections new_document),
      body = [title_paragraph, add_paragraph []] @
             map (\<lambda>g. body_paragraph (strip g)) (nonblank_groups text)\<rparr>"
  by (simp add: pages_document_def docx_loop_eq nonblank_groups_def new_document_def)

section \<open>The claims on several groups\<close>

lemma no_label_not_contact: "\<not> contains_contact_label g \<Longrightarrow> \<not> is_contact_para g"
  by (simp add: contains_contact_label_def is_contact_para_def spec_contact_labels_def
      contact_keywords_def)

text \<open>
  C2 (as the program has it). The program has no tie-break: the blocks of a letter are
  its nonblank pieces in order, each classified on its own, so every piece that
  satisfies the test of line 66 is rendered as a contact block, wherever it stands and
  however many came before. The number of contact blocks is the number of such pieces,
  and a contact block may be followed by further blocks.
\<close>

theorem no_contact_tie_break:
  "segment_pdf text =
     map (\<lambda>g. if is_contact_para g then ContactBlock (contact_lines g)
              else ParagraphBlock (strip g)) (nonblank_groups text)
   \<and> map is_contact_block (segment_pdf text) = map is_contact_para (nonblank_groups text)
   \<and> length (filter is_contact_block (segment_pdf text)) =
       length (filter is_contact_para (nonblank_groups text))
   \<and> pdf_story text = [Paragraph ''Cover Letter'' title_style, Spacer 1 6] @
       concat (map block_flowables (segment_pdf text))"
proof -
  have a: "segment_pdf text =
     map (\<lambda>g. if is_contact_para g then ContactBlock (contact_lines g)
              else ParagraphBlock (strip g)) (nonblank_groups text)"
    by (rule segment_pdf_groups)
  have b: "map is_contact_block (segment_pdf text) = map is_contact_para (nonblank_groups text)"
    unfolding a by simp
  have "length (filter is_contact_block (map f gs)) =
        length (filter (\<lambda>g. is_contact_block (f g)) gs)" for f :: "string \<Rightarrow> block" and gs
    by (induction gs) auto
  then have c: "length (filter is_contact_block (segment_pdf text)) =
       length (filter is_contact_para (nonblank_groups text))"
    unfolding a by (simp cong: filter_cong)
  show ?thesis using a b c pdf_story_blocks by blast
qed

text \<open>
  Two groups that both satisfy the heuristic, followed by a closing line: both are
  rendered as contact blocks, and the last block is an ordinary paragraph.
\<close>

theorem no_contact_tie_break_counterexample:
  "split_blank ''Email: a@b.com\<newline>Phone: 1\<newline>\<newline>Email: c@d.com\<newline>Phone: 2\<newline>\<newline>Bye'' =
     [''Email: a@b.com\<newline>Phone: 1'', ''Email: c@d.com\<newline>Phone: 2'', ''Bye''] \<and>
   spec_is_contact_group ''Email: a@b.com\<newline>Phone: 1'' \<and>
   spec_is_contact_group ''Email: c@d.com\<newline>Phone: 2'' \<and>
   segment_pdf ''Email: a@b.com\<newline>Phone: 1\<newline>\<newline>Email: c@d.com\<newline>Phone: 2\<newline>\<newline>Bye'' =
     [ContactBlock [''Email: a@b.com'', ''Phone: 1''],
      ContactBlock [''Email: c@d.com'', ''Phone: 2''],
      ParagraphBlock ''Bye''] \<and>
   pdf_story ''Email: a@b.com\<newline>Phone: 1\<newline>\<newline>Email: c@d.com\<newline>Phone: 2\<newline>\<newline>Bye'' =
     [Paragraph ''Cover Letter'' title_style, Spacer 1 6,
      Paragraph ''Email: a@b.com'' body_style, Spacer 1 6,
      Paragraph ''Phone: 1'' body_style, Spacer 1 6,
      Paragraph ''Email: c@d.com'' body_style, Spacer 1 6,
      Paragraph ''Phone: 2'' body_style, Spacer 1 6,
      Paragraph ''Bye'' body_style, Spacer 1 12]"
  by code_simp

subsection \<open>The two splits agree on the nonblank groups\<close>

lemma is_space_newline: "is_space newline"
  by (simp add: is_space_def newline_def)

lemma strip_newline_Cons: "strip (newline # s) = strip s"
  by (simp add: strip_def is_space_newline)

lemma label_newline_Cons: "contains_contact_label (newline # g) = contains_contact_label g"
  by (simp add: contains_contact_label_def spec_contact_labels_def lower_def lower_char_def
      newline_def)


lemma split_blank_Nil: "split_blank [] = [[]]"
  by (simp add: split_blank_def)

lemma split_blank_sep: "split_blank (newline # newline # r) = [] # split_blank r"
  by (simp add: split_blank_def)

lemma split_blank_other:
  "\<not> (c = newline \<and> prefix [newline] cs) \<Longrightarrow> split_blank cs = p # ps \<Longrightarrow>
   split_blank (c # cs) = (c # p) # ps"
  by (auto simp: split_blank_def)

lemma spec_groups_sep:
  "spec_groups (newline # newline # r) = [] # spec_groups (dropWhile (\<lambda>x. x = newline) r)"
  by simp

lemma spec_groups_other:
  "\<not> (c = newline \<and> prefix [newline] cs) \<Longrightarrow> spec_groups cs = p # ps \<Longrightarrow>
   spec_groups (c # cs) = (c # p) # ps"
  by auto

lemma piece_rel_filter_same:
  "list_all2 piece_rel (filter (\<lambda>g. strip g \<noteq> []) ps) (filter (\<lambda>g. strip g \<noteq> []) qs) \<Longrightarrow>
   list_all2 piece_rel (filter (\<lambda>g. strip g \<noteq> []) (p # ps))
     (filter (\<lambda>g. strip g \<noteq> []) (p # qs))"
  by (simp add: piece_rel_def)

lemma piece_rel_filter_newline:
  "list_all2 piece_rel (filter (\<lambda>g. strip g \<noteq> []) ps) (filter (\<lambda>g. strip g \<noteq> []) qs) \<Longrightarrow>
   list_all2 piece_rel (filter (\<lambda>g. strip g \<noteq> []) ((newline # p) # ps))
     (filter (\<lambda>g. strip g \<noteq> []) (p # qs))"
  by (simp add: piece_rel_def strip_newline_Cons)

lemma groups_agree:
  "(\<exists>p ps qs. split_blank t = p # ps \<and> spec_groups t = p # qs \<and>
      list_all2 piece_rel (filter (\<lambda>g. strip g \<noteq> []) ps) (filter (\<lambda>g. strip g \<noteq> []) qs))
   \<and> list_all2 piece_rel (filter (\<lambda>g. strip g \<noteq> []) (split_blank t))
        (filter (\<lambda>g. strip g \<noteq> []) (spec_groups (dropWhile (\<lambda>x. x = newline) t)))"
proof (induction t rule: length_induct)
  case (1 t)
  let ?nb = "\<lambda>g. strip g \<noteq> []"
  let ?nl = "\<lambda>x. x = newline"
  have inv_ih: "\<exists>p ps qs. split_blank u = p # ps \<and> spec_groups u = p # qs \<and>
      list_all2 piece_rel (filter ?nb ps) (filter ?nb qs)" if "length u < length t" for u
    using 1 that by blast
  have run_ih: "list_all2 piece_rel (filter ?nb (split_blank u))
        (filter ?nb (spec_groups (dropWhile ?nl u)))" if "length u < length t" for u
    using 1 that by blast
  have inv: "\<exists>p ps qs. split_blank t = p # ps \<and> spec_groups t = p # qs \<and>
      list_all2 piece_rel (filter ?nb ps) (filter ?nb qs)"
  proof (cases t)
    case Nil
    then show ?thesis by (simp add: split_blank_Nil)
  next
    case (Cons c cs)
    show ?thesis
    proof (cases "c = newline \<and> prefix [newline] cs")
      case True
      then obtain r where r: "cs = newline # r" by (cases cs) auto
      have t: "t = newline # newline # r" using Cons True r by simp
      have "list_all2 piece_rel (filter ?nb (split_blank r))
              (filter ?nb (spec_groups (dropWhile ?nl r)))"
        using run_ih [of r] t by simp
      then have "split_blank t = [] # split_blank r \<and>
          spec_groups t = [] # spec_groups (dropWhile ?nl r) \<and>
          list_all2 piece_rel (filter ?nb (split_blank r))
              (filter ?nb (spec_groups (dropWhile ?nl r)))"
        unfolding t by (simp only: split_blank_sep spec_groups_sep simp_thms)
      then show ?thesis by blast
    next
      case False
      obtain p ps qs where h: "split_blank cs = p # ps" "spec_groups cs = p # qs"
        "list_all2 piece_rel (filter ?nb ps) (filter ?nb qs)"
        using inv_ih [of cs] Cons by auto
      have "split_blank t = (c # p) # ps \<and> spec_groups t = (c # p) # qs \<and>
        list_all2 piece_rel (filter ?nb ps) (filter ?nb qs)"
        unfolding Cons
        using split_blank_other [OF False h(1)] spec_groups_other [OF False h(2)] h(3)
        by simp
      then show ?thesis by blast
    qed
  qed
  have run: "list_all2 piece_rel (filter ?nb (split_blank t))
        (filter ?nb (spec_groups (dropWhile ?nl t)))"
  proof (cases t)
    case Nil
    then show ?thesis by (simp add: split_blank_Nil strip_Nil)
  next
    case (Cons c cs)
    show ?thesis
    proof (cases "c = newline")
      case False
      then have d: "dropWhile ?nl t = t" using Cons by simp
      obtain p ps qs where h: "split_blank t = p # ps" "spec_groups t = p # qs"
        "list_all2 piece_rel (filter ?nb ps) (filter ?nb qs)"
        using inv by blast
      show ?thesis unfolding d h(1) h(2) using h(3) by (rule piece_rel_filter_same)
    next
      case True
      show ?thesis
      proof (cases cs)
        case Nil
        have "t = [newline]" using Cons True Nil by simp
        then show ?thesis
          by (simp add: split_blank_def strip_newline_Cons strip_Nil)
      next
        case (Cons d ds)
        show ?thesis
        proof (cases "d = newline")
          case dn: True
          have t: "t = newline # newline # ds" using \<open>t = c # cs\<close> True Cons dn by simp
          have "list_all2 piece_rel (filter ?nb (split_blank ds))
              (filter ?nb (spec_groups (dropWhile ?nl ds)))"
            using run_ih [of ds] t by simp
          then show ?thesis unfolding t by (simp add: split_blank_sep strip_Nil)
        next
          case dn: False
          have t: "t = newline # cs" using \<open>t = c # cs\<close> True by simp
          have d: "dropWhile ?nl t = cs" unfolding t using Cons dn by simp
          obtain p ps qs where h: "split_blank cs = p # ps" "spec_groups cs = p # qs"
            "list_all2 piece_rel (filter ?nb ps) (filter ?nb qs)"
            using inv_ih [of cs] t by auto
          have ns: "\<not> (newline = newline \<and> prefix [newline] cs)"
            using Cons dn by simp
          have sb: "split_blank t = (newline # p) # ps"
            unfolding t using split_blank_other [OF ns h(1)] .
          show ?thesis unfolding d sb h(2) using h(3) by (rule piece_rel_filter_newline)
        qed
      qed
    qed
  qed
  show ?case using inv run by (rule conjI)
qed

lemma piece_rel_strip:
  "list_all2 piece_rel xs ys \<Longrightarrow> map strip xs = map strip ys"
  by (induction rule: list_all2_induct) (auto simp: piece_rel_def strip_newline_Cons)

lemma piece_rel_label:
  "list_all2 piece_rel xs ys \<Longrightarrow>
   list_all (\<lambda>g. \<not> contains_contact_label g) ys \<Longrightarrow>
   list_all (\<lambda>g. \<not> contains_contact_label g) xs"
  by (induction rule: list_all2_induct) (auto simp: piece_rel_def label_newline_Cons)

lemma nonblank_groups_spec:
  "list_all2 piece_rel (nonblank_groups t) (filter (\<lambda>g. strip g \<noteq> []) (spec_groups t))"
proof -
  obtain p ps qs where h: "split_blank t = p # ps" "spec_groups t = p # qs"
    "list_all2 piece_rel (filter (\<lambda>g. strip g \<noteq> []) ps) (filter (\<lambda>g. strip g \<noteq> []) qs)"
    using groups_agree [of t] by blast
  show ?thesis
    unfolding nonblank_groups_def h(1) h(2) using h(3) by (rule piece_rel_filter_same)
qed


lemma nonblank_groups_spec_strip:
  "map strip (nonblank_groups t) = map strip (spec_nonblank_groups t)"
  unfolding spec_nonblank_groups_def using nonblank_groups_spec by (rule piece_rel_strip)

lemma spec_groups_no_label:
  assumes "\<forall>g \<in> set (spec_nonblank_groups t). \<not> contains_contact_label g"
  shows "\<forall>g \<in> set (nonblank_groups t). \<not> contains_contact_label g"
proof -
  have "list_all (\<lambda>g. \<not> contains_contact_label g) (spec_nonblank_groups t)"
    using assms by (simp add: list_all_iff)
  then have "list_all (\<lambda>g. \<not> contains_contact_label g) (nonblank_groups t)"
    using nonblank_groups_spec [of t] piece_rel_label
    unfolding spec_nonblank_groups_def by blast
  then show ?thesis by (simp add: list_all_iff)
qed

text \<open>
  C9. When none of the nonblank groups of a letter contains one of the four contact
  labels, the paginated renderer turns the groups into as many ordinary paragraphs, in
  order, each holding the trimmed group, and into no contact block. This holds for the
  groups taken as the pieces of the program's split and for the groups taken as the
  specification words them; trimmed, the two are the same list. The word-processor
  renderer turns every nonblank group into one paragraph in any case. In both, a group
  that is empty or only whitespace is dropped, and no paragraph text is blank.
\<close>

theorem plain_groups_become_paragraphs:
  "((\<forall>g \<in> set (nonblank_groups text). \<not> contains_contact_label g) \<longrightarrow>
      segment_pdf text = map (\<lambda>g. ParagraphBlock (strip g)) (nonblank_groups text)
      \<and> length (segment_pdf text) = length (nonblank_groups text)
      \<and> filter is_contact_block (segment_pdf text) = []
      \<and> pdf_story text = [Paragraph ''Cover Letter'' title_style, Spacer 1 6] @
          concat (map (\<lambda>g. [Paragraph (strip g) body_style, Spacer 1 12])
                   (nonblank_groups text)))
   \<and> ((\<forall>g \<in> set (spec_nonblank_groups text). \<not> contains_contact_label g) \<longrightarrow>
      segment_pdf text = map (\<lambda>g. ParagraphBlock (strip g)) (spec_nonblank_groups text)
      \<and> length (segment_pdf text) = length (spec_nonblank_groups text)
      \<and> filter is_contact_block (segment_pdf text) = [])
   \<and> body (pages_document text) = [title_paragraph, add_paragraph []] @
        map (\<lambda>g. body_paragraph (strip g)) (nonblank_groups text)
   \<and> map strip (nonblank_groups text) = map strip (spec_nonblank_groups text)
   \<and> (\<forall>g \<in> set (nonblank_groups text). strip g \<noteq> [] \<and> strip (strip g) \<noteq> [])
   \<and> (\<forall>t. ParagraphBlock t \<in> set (segment_pdf text) \<longrightarrow> strip t \<noteq> [])
   \<and> (\<forall>p \<in> set (drop 2 (body (pages_document text))).
         \<exists>t. strip t \<noteq> [] \<and> p = body_paragraph t)"
proof -
  have nb: "\<forall>g \<in> set (nonblank_groups text). strip g \<noteq> [] \<and> strip (strip g) \<noteq> []"
    by (simp add: nonblank_groups_def strip_idem)
  have p1: "segment_pdf text = map (\<lambda>g. ParagraphBlock (strip g)) (nonblank_groups text)"
    if h: "\<forall>g \<in> set (nonblank_groups text). \<not> contains_contact_label g"
  proof -
    have "\<forall>g \<in> set (nonblank_groups text). \<not> is_contact_para g"
      using h no_label_not_contact by blast
    then show ?thesis unfolding segment_pdf_groups by simp
  qed
  have p2: "filter is_contact_block (map (\<lambda>g. ParagraphBlock (strip g)) gs) = []" for gs
    by (induction gs) auto
  have p3: "concat (map block_flowables (map (\<lambda>g. ParagraphBlock (strip g)) gs)) =
            concat (map (\<lambda>g. [Paragraph (strip g) body_style, Spacer 1 12]) gs)" for gs
    by (induction gs) auto
  have A: "(\<forall>g \<in> set (nonblank_groups text). \<not> contains_contact_label g) \<longrightarrow>
      segment_pdf text = map (\<lambda>g. ParagraphBlock (strip g)) (nonblank_groups text)
      \<and> length (segment_pdf text) = length (nonblank_groups text)
      \<and> filter is_contact_block (segment_pdf text) = []
      \<and> pdf_story text = [Paragraph ''Cover Letter'' title_style, Spacer 1 6] @
          concat (map (\<lambda>g. [Paragraph (strip g) body_style, Spacer 1 12])
                   (nonblank_groups text))"
  proof
    assume h: "\<forall>g \<in> set (nonblank_groups text). \<not> contains_contact_label g"
    note e = p1 [OF h]
    show "segment_pdf text = map (\<lambda>g. ParagraphBlock (strip g)) (nonblank_groups text)
      \<and> length (segment_pdf text) = length (nonblank_groups text)
      \<and> filter is_contact_block (segment_pdf text) = []
      \<and> pdf_story text = [Paragraph ''Cover Letter'' title_style, Spacer 1 6] @
          concat (map (\<lambda>g. [Paragraph (strip g) body_style, Spacer 1 12])
                   (nonblank_groups text))"
      unfolding pdf_story_blocks e p2 p3 by simp
  qed
  have S: "map strip (nonblank_groups text) = map strip (spec_nonblank_groups text)"
    by (rule nonblank_groups_spec_strip)
  have A': "(\<forall>g \<in> set (spec_nonblank_groups text). \<not> contains_contact_label g) \<longrightarrow>
      segment_pdf text = map (\<lambda>g. ParagraphBlock (strip g)) (spec_nonblank_groups text)
      \<and> length (segment_pdf text) = length (spec_nonblank_groups text)
      \<and> filter is_contact_block (segment_pdf text) = []"
  proof
    assume h: "\<forall>g \<in> set (spec_nonblank_groups text). \<not> contains_contact_label g"
    have e: "segment_pdf text = map (\<lambda>g. ParagraphBlock (strip g)) (nonblank_groups text)"
      using p1 spec_groups_no_label [OF h] by blast
    have "map (\<lambda>g. ParagraphBlock (strip g)) (nonblank_groups text) =
          map ParagraphBlock (map strip (nonblank_groups text))" by simp
    also have "\<dots> = map ParagraphBlock (map strip (spec_nonblank_groups text))"
      unfolding S ..
    also have "\<dots> = map (\<lambda>g. ParagraphBlock (strip g)) (spec_nonblank_groups text)" by simp
    finally have e': "segment_pdf text =
        map (\<lambda>g. ParagraphBlock (strip g)) (spec_nonblank_groups text)"
      using e by simp
    show "segment_pdf text = map (\<lambda>g. ParagraphBlock (strip g)) (spec_nonblank_groups text)
      \<and> length (segment_pdf text) = length (spec_nonblank_groups text)
      \<and> filter is_contact_block (segment_pdf text) = []"
      unfolding e' p2 by simp
  qed
  have B: "body (pages_document text) = [title_paragraph, add_paragraph []] @
        map (\<lambda>g. body_paragraph (strip g)) (nonblank_groups text)"
    by (simp add: pages_document_eq)
  have C: "\<forall>t. ParagraphBlock t \<in> set (segment_pdf text) \<longrightarrow> strip t \<noteq> []"
    unfolding segment_pdf_groups using nb by auto
  have D: "\<forall>p \<in> set (drop 2 (body (pages_document text))).
         \<exists>t. strip t \<noteq> [] \<and> p = body_paragraph t"
    unfolding B using nb by auto
  show ?thesis using A A' B S nb C D by blast
qed

theorem plain_groups_become_paragraphs_witness:
  "nonblank_groups ''Hello there.\<newline>\<newline> Second\<newline>para.\<newline>\<newline>\<newline>Bye'' =
     [''Hello there.'', '' Second\<newline>para.'', ''\<newline>Bye''] \<and>
   spec_nonblank_groups ''Hello there.\<newline>\<newline> Second\<newline>para.\<newline>\<newline>\<newline>Bye'' =
     [''Hello there.'', '' Second\<newline>para.'', ''Bye''] \<and>
   list_all (\<lambda>g. \<not> contains_contact_label g)
     [''Hello there.'', '' Second\<newline>para.'', ''\<newline>Bye'', ''Bye''] \<and>
   segment_pdf ''Hello there.\<newline>\<newline> Second\<newline>para.\<newline>\<newline>\<newline>Bye'' =
     [ParagraphBlock ''Hello there.'', ParagraphBlock ''Second\<newline>para.'',
      ParagraphBlock ''Bye'']"
proof -
  let ?T = "''Hello there.\<newline>\<newline> Second\<newline>para.\<newline>\<newline>\<newline>Bye''"
  have g: "nonblank_groups ?T = [''Hello there.'', '' Second\<newline>para.'', ''\<newline>Bye'']"
    by code_simp
  have g': "spec_nonblank_groups ?T = [''Hello there.'', '' Second\<newline>para.'', ''Bye'']"
    by code_simp
  have l: "list_all (\<lambda>g. \<not> contains_contact_label g)
     [''Hello there.'', '' Second\<newline>para.'', ''\<newline>Bye'', ''Bye'']"
    by code_simp
  have h: "\<forall>g \<in> set (nonblank_groups ?T). \<not> contains_contact_label g"
    unfolding g using l by (simp add: list_all_iff)
  have h': "\<forall>g \<in> set (spec_nonblank_groups ?T). \<not> contains_contact_label g"
    unfolding g' using l by (simp add: list_all_iff)
  have m: "map (\<lambda>g. ParagraphBlock (strip g)) [''Hello there.'', '' Second\<newline>para.'', ''Bye''] =
     [ParagraphBlock ''Hello there.'', ParagraphBlock ''Second\<newline>para.'',
      ParagraphBlock ''Bye'']"
    by code_simp
  have m': "map (\<lambda>g. ParagraphBlock (strip g))
       [''Hello there.'', '' Second\<newline>para.'', ''\<newline>Bye''] =
     [ParagraphBlock ''Hello there.'', ParagraphBlock ''Second\<newline>para.'',
      ParagraphBlock ''Bye'']"
    by code_simp
  have "segment_pdf ?T = map (\<lambda>g. ParagraphBlock (strip g)) (spec_nonblank_groups ?T)"
    using plain_groups_become_paragraphs [of ?T] h' by blast
  then have s: "segment_pdf ?T =
     [ParagraphBlock ''Hello there.'', ParagraphBlock ''Second\<newline>para.'',
      ParagraphBlock ''Bye'']"
    unfolding g' m .
  have "segment_pdf ?T = map (\<lambda>g. ParagraphBlock (strip g)) (nonblank_groups ?T)"
    using plain_groups_become_paragraphs [of ?T] h by blast
  then have "segment_pdf ?T =
     [ParagraphBlock ''Hello there.'', ParagraphBlock ''Second\<newline>para.'',
      ParagraphBlock ''Bye'']"
    unfolding g m' .
  then show ?thesis using g g' l by (simp only: simp_thms)
qed


section \<open>The claims on the source reader\<close>

lemma extract_loop_texts:
  "extract_loop (map Some texts) acc = Inr (acc @ concat (map (\<lambda>p. p @ [newline]) texts))"
  by (induction texts arbitrary: acc) auto

lemma extract_loop_all_pages:
  "extract_loop pages acc = Inr t \<Longrightarrow> \<exists>texts. pages = map Some texts"
proof (induction pages arbitrary: acc)
  case Nil
  show ?case by simp
next
  case (Cons page pages)
  from Cons.prems obtain p where p: "page = Some p"
    by (cases page) auto
  with Cons.prems have "extract_loop pages (acc @ p @ [newline]) = Inr t" by simp
  then obtain texts where "pages = map Some texts" using Cons.IH by blast
  then have "page # pages = map Some (p # texts)" using p by simp
  then show ?case by (rule exI)
qed

text \<open>
  C7. For an input that names a regular file and whose lowercased name ends in
  \<open>.pdf\<close>, the reader returns a text exactly when the file parses and every page
  yields its text, and the text returned is then the concatenation, in page order, of
  each page's text followed by one newline, trimmed at both ends.
\<close>

theorem read_pdf_pages_in_order:
  assumes "fs input_data = Some (RegularFile d)"
    and "endswith (lower input_data) ''.pdf''"
  shows "read_file_or_text fs input_data = Inr t \<longleftrightarrow>
     (\<exists>texts. pdf_pages d = Some (map Some texts) \<and>
        t = strip (concat (map (\<lambda>p. p @ [newline]) texts)))"
proof
  have f: "isfile fs input_data" using assms(1) by (simp add: isfile_def)
  assume r: "read_file_or_text fs input_data = Inr t"
  then obtain pages where pg: "pdf_pages d = Some pages"
    using assms f by (cases "pdf_pages d") (auto simp: read_file_or_text_def read_pdf_file_def)
  from r obtain raw where raw: "extract_loop pages [] = Inr raw"
    using assms f pg
    by (cases "extract_loop pages []") (auto simp: read_file_or_text_def read_pdf_file_def)
  then obtain texts where tx: "pages = map Some texts"
    using extract_loop_all_pages by blast
  have "raw = concat (map (\<lambda>p. p @ [newline]) texts)"
    using raw extract_loop_texts [of texts "[]"] unfolding tx by simp
  moreover have "t = strip raw"
    using r assms f pg raw by (simp add: read_file_or_text_def read_pdf_file_def)
  ultimately have "pdf_pages d = Some (map Some texts) \<and>
        t = strip (concat (map (\<lambda>p. p @ [newline]) texts))"
    using pg tx by simp
  then show "\<exists>texts. pdf_pages d = Some (map Some texts) \<and>
        t = strip (concat (map (\<lambda>p. p @ [newline]) texts))"
    by (rule exI [of _ texts])
next
  have f: "isfile fs input_data" using assms(1) by (simp add: isfile_def)
  assume "\<exists>texts. pdf_pages d = Some (map Some texts) \<and>
        t = strip (concat (map (\<lambda>p. p @ [newline]) texts))"
  then obtain texts where tx: "pdf_pages d = Some (map Some texts)"
    and t: "t = strip (concat (map (\<lambda>p. p @ [newline]) texts))"
    by (elim exE conjE)
  show "read_file_or_text fs input_data = Inr t"
    using assms f tx t
    by (simp add: read_file_or_text_def read_pdf_file_def extract_loop_texts)
qed

text \<open>
  C8. An input that names nothing in the file system is returned as it is; no error is
  raised.
\<close>

theorem missing_path_is_literal_text:
  assumes "fs input_data = None"
  shows "read_file_or_text fs input_data = Inr input_data"
  using assms by (simp add: read_file_or_text_def isfile_def)


theorem read_pdf_pages_in_order_witness:
  "demo_fs ''cv.PDF'' = Some (RegularFile \<lparr>utf8_text = None,
       pdf_pages = Some [Some '' Page one'', Some ''Page two '']\<rparr>) \<and>
   endswith (lower ''cv.PDF'') ''.pdf'' \<and>
   read_file_or_text demo_fs ''cv.PDF'' = Inr ''Page one\<newline>Page two''"
proof -
  let ?d = "\<lparr>utf8_text = None, pdf_pages = Some [Some '' Page one'', Some ''Page two '']\<rparr>"
  have a: "demo_fs ''cv.PDF'' = Some (RegularFile ?d)" by (simp add: demo_fs_def)
  have b: "endswith (lower ''cv.PDF'') ''.pdf''" by code_simp
  have c: "pdf_pages ?d = Some (map Some ['' Page one'', ''Page two '']) \<and>
     ''Page one\<newline>Page two'' =
       strip (concat (map (\<lambda>p. p @ [newline]) ['' Page one'', ''Page two '']))"
    by code_simp
  have "\<exists>texts. pdf_pages ?d = Some (map Some texts) \<and>
     ''Page one\<newline>Page two'' = strip (concat (map (\<lambda>p. p @ [newline]) texts))"
    using c by (rule exI [of _ "['' Page one'', ''Page two '']"])
  then have "read_file_or_text demo_fs ''cv.PDF'' = Inr ''Page one\<newline>Page two''"
    using read_pdf_pages_in_order [of demo_fs "''cv.PDF''" ?d "''Page one\<newline>Page two''", OF a b]
    by (simp only:)
  then show ?thesis using a b by (simp only: simp_thms)
qed

theorem missing_path_is_literal_text_witness:
  "demo_fs ''Senior engineer, ten years of Python.'' = None \<and>
   read_file_or_text demo_fs ''Senior engineer, ten years of Python.'' =
     Inr ''Senior engineer, ten years of Python.''"
proof -
  have a: "demo_fs ''Senior engineer, ten years of Python.'' = None"
    by (simp add: demo_fs_def)
  show ?thesis
    using a missing_path_is_literal_text
      [of demo_fs "''Senior engineer, ten years of Python.''", OF a]
    by (simp only: simp_thms)
qed


section \<open>The claims on the renderers\<close>

text \<open>
  C5 (as the program has it). The word-processor renderer sets the top and bottom
  margins of the section to 0.8 inches and the left and right margins to 1.0 inch. The
  title \<open>Cover Letter\<close> is a centered paragraph of one bold run, followed by an empty
  paragraph. Every nonblank piece of the letter, a contact group included, becomes
  one justified paragraph of one run in Times New Roman 12pt holding the trimmed
  piece; no paragraph is left-aligned and no group is split into lines.
\<close>

theorem pages_document_layout:
  "sections (pages_document text) =
     [\<lparr>top_margin = 4 / 5, bottom_margin = 4 / 5, left_margin = 1, right_margin = 1\<rparr>]
   \<and> body (pages_document text) = [title_paragraph, add_paragraph []] @
        map (\<lambda>g. body_paragraph (strip g)) (nonblank_groups text)
   \<and> par_alignment title_paragraph = Some CENTER
   \<and> map (\<lambda>r. (run_text r, font_bold r)) (runs title_paragraph) =
        [(''Cover Letter'', Some True)]
   \<and> par_alignment (body_paragraph t) = Some JUSTIFY
   \<and> runs (body_paragraph t) =
        (if t = [] then []
         else [\<lparr>run_text = t, font_name = Some ''Times New Roman'', font_size = Some 12,
                 font_bold = None, font_rgb = None\<rparr>])
   \<and> list_all (\<lambda>p. par_alignment p \<noteq> Some LEFT) (body (pages_document text))"
proof -
  have a: "sections (pages_document text) =
     [\<lparr>top_margin = 4 / 5, bottom_margin = 4 / 5, left_margin = 1, right_margin = 1\<rparr>]"
    by (simp add: pages_document_eq new_document_def set_margins_def)
  have b: "body (pages_document text) = [title_paragraph, add_paragraph []] @
        map (\<lambda>g. body_paragraph (strip g)) (nonblank_groups text)"
    by (simp add: pages_document_eq)
  have c: "par_alignment title_paragraph = Some CENTER"
    by (simp add: title_paragraph_def)
  have d: "map (\<lambda>r. (run_text r, font_bold r)) (runs title_paragraph) =
        [(''Cover Letter'', Some True)]"
    by (simp add: title_paragraph_def)
  have e: "par_alignment (body_paragraph t) = Some JUSTIFY" for t
    by (simp add: body_paragraph_def)
  have f: "runs (body_paragraph t) =
        (if t = [] then []
         else [\<lparr>run_text = t, font_name = Some ''Times New Roman'', font_size = Some 12,
                 font_bold = None, font_rgb = None\<rparr>])"
    by (simp add: body_paragraph_def add_paragraph_def add_run_def style_run_def)
  have g: "list_all (\<lambda>p. par_alignment p \<noteq> Some LEFT) (body (pages_document text))"
    unfolding b by (simp add: list_all_iff e c add_paragraph_def)
  show ?thesis using a b c d e f g by blast
qed

text \<open>
  For a greeting followed by a contact group, the left margin is 1.0 inch, not 0.8, and
  the contact group is one justified paragraph that holds both of its lines.
\<close>

theorem pages_document_layout_counterexample:
  "map left_margin (sections (pages_document ''Hi\<newline>\<newline>Email: a\<newline>Phone: 1'')) = [1]
   \<and> (1 :: rat) \<noteq> 4 / 5
   \<and> spec_is_contact_group ''Email: a\<newline>Phone: 1''
   \<and> body (pages_document ''Hi\<newline>\<newline>Email: a\<newline>Phone: 1'') =
       [title_paragraph, add_paragraph [], body_paragraph ''Hi'',
        body_paragraph ''Email: a\<newline>Phone: 1'']
   \<and> par_alignment (body_paragraph ''Email: a\<newline>Phone: 1'') = Some JUSTIFY
   \<and> map run_text (runs (body_paragraph ''Email: a\<newline>Phone: 1'')) =
       [''Email: a\<newline>Phone: 1'']"
  by code_simp

section \<open>The claims on the run\<close>

lemma replace_no_first_char:
  "k \<notin> set stem \<Longrightarrow> replace k ks new (stem @ rest) = stem @ replace k ks new rest"
  by (induction stem) auto

lemma pdf_name_of_txt:
  assumes "CHR ''.'' \<notin> set stem"
  shows "replace CHR ''.'' ''doc'' ''.pdf'' (replace CHR ''.'' ''txt'' ''.pdf'' (stem @ ''.txt''))
         = stem @ ''.pdf''"
proof -
  have "replace CHR ''.'' ''txt'' ''.pdf'' (stem @ ''.txt'') = stem @ ''.pdf''"
    using assms by (simp add: replace_no_first_char)
  moreover have "replace CHR ''.'' ''doc'' ''.pdf'' (stem @ ''.pdf'') = stem @ ''.pdf''"
    using assms by (simp add: replace_no_first_char)
  ultimately show ?thesis by simp
qed

lemma docx_name_of_txt:
  assumes "CHR ''.'' \<notin> set stem"
  shows "replace CHR ''.'' ''pdf'' ''.docx'' (replace CHR ''.'' ''txt'' ''.docx'' (stem @ ''.txt''))
         = stem @ ''.docx''"
proof -
  have "replace CHR ''.'' ''txt'' ''.docx'' (stem @ ''.txt'') = stem @ ''.docx''"
    using assms by (simp add: replace_no_first_char)
  moreover have "replace CHR ''.'' ''pdf'' ''.docx'' (stem @ ''.docx'') = stem @ ''.docx''"
    using assms by (simp add: replace_no_first_char)
  ultimately show ?thesis by simp
qed

text \<open>
  C6 (as the program has it). With no output name the three artifacts go to
  \<open>coverLetter.txt\<close>, \<open>coverLetter.pdf\<close> and \<open>coverLetter.docx\<close> in the output
  directory. With an output name, the text artifact goes to the directory joined with
  the name as given, its extension kept; for a name that is a stem without a dot
  followed by \<open>.txt\<close>, the other two artifacts go to the stem with \<open>.pdf\<close> and with
  \<open>.docx\<close>.
\<close>

theorem artifact_paths:
  "txt_filename output_dir None = path_join output_dir ''coverLetter.txt''
   \<and> pdf_filename output_dir None = path_join output_dir ''coverLetter.pdf''
   \<and> pages_filename output_dir None = path_join output_dir ''coverLetter.docx''
   \<and> (name \<noteq> [] \<longrightarrow> txt_filename output_dir (Some name) = path_join output_dir name)
   \<and> (CHR ''.'' \<notin> set stem \<longrightarrow>
        txt_filename output_dir (Some (stem @ ''.txt'')) = path_join output_dir (stem @ ''.txt'')
        \<and> pdf_filename output_dir (Some (stem @ ''.txt'')) = path_join output_dir (stem @ ''.pdf'')
        \<and> pages_filename output_dir (Some (stem @ ''.txt'')) =
            path_join output_dir (stem @ ''.docx''))"
  by (simp add: txt_filename_def pdf_filename_def pages_filename_def
      pdf_name_of_txt docx_name_of_txt)

theorem artifact_paths_witness:
  "''cover.md'' \<noteq> [] \<and> txt_filename ''out'' (Some ''cover.md'') = ''out/cover.md''
   \<and> CHR ''.'' \<notin> set ''acme_letter''
   \<and> txt_filename ''out'' (Some ''acme_letter.txt'') = ''out/acme_letter.txt''
   \<and> pdf_filename ''out'' (Some ''acme_letter.txt'') = ''out/acme_letter.pdf''
   \<and> pages_filename ''out'' (Some ''acme_letter.txt'') = ''out/acme_letter.docx''"
proof -
  have a: "''cover.md'' \<noteq> []" by simp
  have b: "CHR ''.'' \<notin> set ''acme_letter''" by simp
  have j: "path_join ''out'' ''cover.md'' = ''out/cover.md''"
    "path_join ''out'' ''acme_letter.txt'' = ''out/acme_letter.txt''"
    "path_join ''out'' (''acme_letter'' @ ''.pdf'') = ''out/acme_letter.pdf''"
    "path_join ''out'' (''acme_letter'' @ ''.docx'') = ''out/acme_letter.docx''"
    by code_simp+
  have c: "''acme_letter'' @ ''.txt'' = ''acme_letter.txt''" by simp
  show ?thesis
    using a b artifact_paths [of "''out''" "''cover.md''" "''acme_letter''"]
    unfolding j c by blast
qed

text \<open>
  An output name that ends in \<open>.md\<close> keeps that extension for all three artifacts.
\<close>

theorem artifact_paths_counterexample:
  "txt_filename ''out'' (Some ''letter.md'') = ''out/letter.md''
   \<and> pdf_filename ''out'' (Some ''letter.md'') = ''out/letter.md''
   \<and> pages_filename ''out'' (Some ''letter.md'') = ''out/letter.md''
   \<and> \<not> endswith (txt_filename ''out'' (Some ''letter.md'')) ''.txt''
   \<and> \<not> endswith (pdf_filename ''out'' (Some ''letter.md'')) ''.pdf''
   \<and> \<not> endswith (pages_filename ''out'' (Some ''letter.md'')) ''.docx''"
  by code_simp

section \<open>The renderer functions under failures\<close>

lemma and_then_Inr: "and_then (Inr x, effects) f = (fst (f x), effects @ snd (f x))"
  by (simp add: and_then_def split: prod.split)



lemma py_print_raises: "stdout_print w m = Some e \<Longrightarrow> py_print w m = (Inl e, [])"
  by (simp add: py_print_def)


lemma create_pdf_closed:
  "create_pdf_cover_letter w text fn =
     (case pdf_raised w text fn of
        None \<Rightarrow> (Inr True, [BuildPdf (pdf_doc fn) (pdf_story text)])
      | Some e \<Rightarrow>
          (if is_Exception e then
             (case stdout_print w (if e = ImportError then ReportlabMissing else PdfError) of
                None \<Rightarrow> (Inr False, [Print (if e = ImportError then ReportlabMissing else PdfError)])
              | Some e' \<Rightarrow> (Inl e', []))
           else (Inl e, [])))"
proof (cases "pdf_raised w text fn")
  case None
  then show ?thesis by (simp add: create_pdf_cover_letter_def pdf_try_body_def)
next
  case (Some e)
  then show ?thesis
    by (cases e)
      (simp_all add: create_pdf_cover_letter_def pdf_try_body_def and_then_def py_print_def
        split: option.split)
qed

lemma create_pages_closed:
  "create_pages_document w text fn =
     (case docx_raised w text fn of
        None \<Rightarrow> (Inr True, [SaveDocx fn (pages_document text)])
      | Some e \<Rightarrow>
          (if is_Exception e then
             (case stdout_print w (if e = ImportError then DocxMissing else PagesError) of
                None \<Rightarrow> (Inr False, [Print (if e = ImportError then DocxMissing else PagesError)])
              | Some e' \<Rightarrow> (Inl e', []))
           else (Inl e, [])))"
proof (cases "docx_raised w text fn")
  case None
  then show ?thesis by (simp add: create_pages_document_def docx_try_body_def)
next
  case (Some e)
  then show ?thesis
    by (cases e)
      (simp_all add: create_pages_document_def docx_try_body_def and_then_def py_print_def
        split: option.split)
qed

text \<open>
  C10 (as the program has it). Each renderer function returns \<open>True\<close> exactly when
  the body of its \<open>try\<close> runs to the end, and then the artifact is its only effect.
  When the body raises an \<open>Exception\<close>, the matching \<open>except\<close> clause prints its line
  and the function returns \<open>False\<close>, with no artifact. The function does not return in
  every world: an exception raised by the \<open>print\<close> of the \<open>except\<close> clause leaves
  the function, and so does an exception of the body that is no \<open>Exception\<close>. It
  returns a boolean exactly when neither happens.
\<close>

theorem renderers_return_or_raise:
  "create_pdf_cover_letter w text fn =
     (case pdf_raised w text fn of
        None \<Rightarrow> (Inr True, [BuildPdf (pdf_doc fn) (pdf_story text)])
      | Some e \<Rightarrow>
          (if is_Exception e then
             (case stdout_print w (if e = ImportError then ReportlabMissing else PdfError) of
                None \<Rightarrow> (Inr False, [Print (if e = ImportError then ReportlabMissing else PdfError)])
              | Some e' \<Rightarrow> (Inl e', []))
           else (Inl e, [])))
   \<and> create_pages_document w text fn =
     (case docx_raised w text fn of
        None \<Rightarrow> (Inr True, [SaveDocx fn (pages_document text)])
      | Some e \<Rightarrow>
          (if is_Exception e then
             (case stdout_print w (if e = ImportError then DocxMissing else PagesError) of
                None \<Rightarrow> (Inr False, [Print (if e = ImportError then DocxMissing else PagesError)])
              | Some e' \<Rightarrow> (Inl e', []))
           else (Inl e, [])))
   \<and> (fst (create_pdf_cover_letter w text fn) = Inr True) =
       (BuildPdf (pdf_doc fn) (pdf_story text) \<in> set (snd (create_pdf_cover_letter w text fn)))
   \<and> (fst (create_pages_document w text fn) = Inr True) =
       (SaveDocx fn (pages_document text) \<in> set (snd (create_pages_document w text fn)))
   \<and> (\<exists>b. fst (create_pdf_cover_letter w text fn) = Inr b) =
       (case pdf_raised w text fn of
          None \<Rightarrow> True
        | Some e \<Rightarrow> is_Exception e \<and>
            stdout_print w (if e = ImportError then ReportlabMissing else PdfError) = None)
   \<and> (\<exists>b. fst (create_pages_document w text fn) = Inr b) =
       (case docx_raised w text fn of
          None \<Rightarrow> True
        | Some e \<Rightarrow> is_Exception e \<and>
            stdout_print w (if e = ImportError then DocxMissing else PagesError) = None)"
proof -
  note a = create_pdf_closed [of w "text" fn]
  note b = create_pages_closed [of w "text" fn]
  have c: "(fst (create_pdf_cover_letter w text fn) = Inr True) =
       (BuildPdf (pdf_doc fn) (pdf_story text) \<in> set (snd (create_pdf_cover_letter w text fn)))"
    unfolding a by (simp split: option.split)
  have d: "(fst (create_pages_document w text fn) = Inr True) =
       (SaveDocx fn (pages_document text) \<in> set (snd (create_pages_document w text fn)))"
    unfolding b by (simp split: option.split)
  have e: "(\<exists>b. fst (create_pdf_cover_letter w text fn) = Inr b) =
       (case pdf_raised w text fn of
          None \<Rightarrow> True
        | Some e \<Rightarrow> is_Exception e \<and>
            stdout_print w (if e = ImportError then ReportlabMissing else PdfError) = None)"
    unfolding a by (auto split: option.split)
  have f: "(\<exists>b. fst (create_pages_document w text fn) = Inr b) =
       (case docx_raised w text fn of
          None \<Rightarrow> True
        | Some e \<Rightarrow> is_Exception e \<and>
            stdout_print w (if e = ImportError then DocxMissing else PagesError) = None)"
    unfolding b by (auto split: option.split)
  show ?thesis using a b c d e f by (intro conjI)
qed

text \<open>
  Without the backends and with the standard output closed, the warning of the
  \<open>except ImportError\<close> clause cannot be printed, and the exception of \<open>print\<close>
  leaves both functions.
\<close>

theorem renderers_return_or_raise_counterexample:
  "create_pdf_cover_letter closed_stdout_world ''Dear team'' ''out/coverLetter.pdf'' =
     (Inl OtherException, [])
   \<and> create_pages_document closed_stdout_world ''Dear team'' ''out/coverLetter.docx'' =
     (Inl OtherException, [])"
  by code_simp


section \<open>The run under failures\<close>

lemma write_text_ok:
  "text_write_ok w path content \<Longrightarrow> write_text w path content = (Inr (), [WriteText path content])"
  by (simp add: write_text_def text_write_ok_def)










subsection \<open>What is written as text\<close>

lemma and_then_effects:
  "snd (and_then r f) = (case fst r of Inl e \<Rightarrow> snd r | Inr x \<Rightarrow> snd r @ snd (f x))"
  by (cases r) (auto simp: and_then_def split: sum.split prod.split)

lemma no_write_and_then:
  assumes "\<And>x y. WriteText x y \<notin> set (snd r)"
    and "\<And>v x y. WriteText x y \<notin> set (snd (f v))"
  shows "WriteText x y \<notin> set (snd (and_then r f))"
  using assms by (simp add: and_then_effects split: sum.split)

lemma no_write_print: "WriteText x y \<notin> set (snd (py_print w m))"
  by (simp add: py_print_def split: option.split)

lemma no_write_prints: "WriteText x y \<notin> set (snd (py_prints w ms))"
proof (induction ms arbitrary: x y)
  case Nil
  show ?case by simp
next
  case (Cons m ms)
  have "WriteText x y \<notin> set (snd (and_then (py_print w m) (\<lambda>u. py_prints w ms)))"
    by (rule no_write_and_then) (simp_all only: no_write_print Cons.IH not_False_eq_True)
  then show ?case by simp
qed

lemma no_write_create_pdf: "WriteText x y \<notin> set (snd (create_pdf_cover_letter w t fn))"
  unfolding create_pdf_closed by (simp split: option.split)

lemma no_write_create_pages: "WriteText x y \<notin> set (snd (create_pages_document w t fn))"
  unfolding create_pages_closed by (simp split: option.split)

lemma no_write_pdf_step: "WriteText x y \<notin> set (snd (pdf_step w output_dir a cover_letter))"
proof (cases "arg_no_pdf a")
  case True
  then show ?thesis by (simp add: pdf_step_def)
next
  case False
  have "WriteText x y \<notin> set (snd
     (and_then (py_prints w [BlankAndRule, PdfHeading, Rule])
          (\<lambda>u. and_then
             (create_pdf_cover_letter w cover_letter (pdf_filename output_dir (arg_output a)))
             (\<lambda>ok. if ok
                then py_print w (PdfCreated (pdf_filename output_dir (arg_output a)))
                else py_print w PdfFailed))))"
    by (intro no_write_and_then)
      (simp_all add: no_write_print no_write_prints no_write_create_pdf
        del: py_prints.simps)
  then show ?thesis using False by (simp add: pdf_step_def del: py_prints.simps)
qed

lemma no_write_pages_step:
  "WriteText x y \<notin> set (snd (pages_step w output_dir a cover_letter))"
  unfolding pages_step_def
  by (intro no_write_and_then)
    (simp_all add: no_write_print no_write_prints no_write_create_pages
      del: py_prints.simps)

lemma main_effects:
  "snd (main w output_dir a cover_letter) =
     snd (main_try_body w output_dir a cover_letter) @
     (case fst (main_try_body w output_dir a cover_letter) of
        Inl e \<Rightarrow> if is_Exception e \<and> stderr_print w FatalError = None
                 then [PrintStderr FatalError] else []
      | Inr u \<Rightarrow> [])"
  by (cases "main_try_body w output_dir a cover_letter")
    (auto simp: main_def split: sum.split option.split)

lemma main_try_body_text_first:
  assumes "text_write_ok w (txt_filename output_dir (arg_output a)) cover_letter"
  shows "\<exists>rest. snd (main_try_body w output_dir a cover_letter) =
           WriteText (txt_filename output_dir (arg_output a)) cover_letter # rest \<and>
           (\<forall>x y. WriteText x y \<notin> set rest)"
proof -
  let ?f = "\<lambda>u :: unit. and_then
       (py_print w (CoverLetterSaved (txt_filename output_dir (arg_output a))))
          (\<lambda>u. and_then (pdf_step w output_dir a cover_letter)
             (\<lambda>u. and_then (pages_step w output_dir a cover_letter)
                (\<lambda>u. py_print w (AllSaved output_dir))))"
  have "WriteText x y \<notin> set (snd (?f ()))" for x y
    by (intro no_write_and_then)
      (simp_all add: no_write_print no_write_pdf_step no_write_pages_step)
  then have n: "\<forall>x y. WriteText x y \<notin> set (snd (?f ()))" by blast
  have "snd (main_try_body w output_dir a cover_letter) =
      WriteText (txt_filename output_dir (arg_output a)) cover_letter # snd (?f ())"
    unfolding main_try_body_def write_text_ok [OF assms] by (simp add: and_then_Inr)
  then show ?thesis using n by blast
qed

text \<open>
  C4 (as the program has it). The text artifact holds the letter exactly as it was
  generated: the first effect of a run is the write of the letter itself, and nothing
  else is ever written as text. No title line is added, so no letter whose blocks are
  the two paragraphs and the contact block of the example is written as the string
  that starts with \<open>Cover Letter\<close>.
\<close>

theorem plain_text_is_letter_verbatim:
  "(text_write_ok w (txt_filename output_dir (arg_output a)) cover_letter \<longrightarrow>
      hd (snd (main w output_dir a cover_letter)) =
        WriteText (txt_filename output_dir (arg_output a)) cover_letter
      \<and> (\<forall>path content. WriteText path content \<in> set (snd (main w output_dir a cover_letter))
           \<longrightarrow> path = txt_filename output_dir (arg_output a) \<and> content = cover_letter))
   \<and> (segment_pdf cover_letter =
         [ParagraphBlock ''Hello there.'', ParagraphBlock ''Second para.'',
          ContactBlock [''Email: x@y.com'', ''Phone: 123'']] \<longrightarrow>
       cover_letter \<noteq>
         ''Cover Letter\<newline>\<newline>Hello there.\<newline>\<newline>Second para.\<newline>\<newline>Email: x@y.com\<newline>Phone: 123'')"
proof -
  have A: "text_write_ok w (txt_filename output_dir (arg_output a)) cover_letter \<longrightarrow>
      hd (snd (main w output_dir a cover_letter)) =
        WriteText (txt_filename output_dir (arg_output a)) cover_letter
      \<and> (\<forall>path content. WriteText path content \<in> set (snd (main w output_dir a cover_letter))
           \<longrightarrow> path = txt_filename output_dir (arg_output a) \<and> content = cover_letter)"
  proof
    assume ok: "text_write_ok w (txt_filename output_dir (arg_output a)) cover_letter"
    obtain rest where r:
      "snd (main_try_body w output_dir a cover_letter) =
         WriteText (txt_filename output_dir (arg_output a)) cover_letter # rest"
      "\<forall>x y. WriteText x y \<notin> set rest"
      using main_try_body_text_first [OF ok] by blast
    show "hd (snd (main w output_dir a cover_letter)) =
        WriteText (txt_filename output_dir (arg_output a)) cover_letter
      \<and> (\<forall>path content. WriteText path content \<in> set (snd (main w output_dir a cover_letter))
           \<longrightarrow> path = txt_filename output_dir (arg_output a) \<and> content = cover_letter)"
      unfolding main_effects r(1) using r(2) by (auto split: sum.split)
  qed
  have s: "segment_pdf ''Cover Letter\<newline>\<newline>Hello there.\<newline>\<newline>Second para.\<newline>\<newline>Email: x@y.com\<newline>Phone: 123'' =
     [ParagraphBlock ''Cover Letter'', ParagraphBlock ''Hello there.'',
      ParagraphBlock ''Second para.'', ContactBlock [''Email: x@y.com'', ''Phone: 123'']]"
    by code_simp
  have B: "segment_pdf cover_letter =
         [ParagraphBlock ''Hello there.'', ParagraphBlock ''Second para.'',
          ContactBlock [''Email: x@y.com'', ''Phone: 123'']] \<longrightarrow>
       cover_letter \<noteq>
         ''Cover Letter\<newline>\<newline>Hello there.\<newline>\<newline>Second para.\<newline>\<newline>Email: x@y.com\<newline>Phone: 123''"
  proof (intro impI notI)
    assume m: "segment_pdf cover_letter =
         [ParagraphBlock ''Hello there.'', ParagraphBlock ''Second para.'',
          ContactBlock [''Email: x@y.com'', ''Phone: 123'']]"
      and e: "cover_letter =
         ''Cover Letter\<newline>\<newline>Hello there.\<newline>\<newline>Second para.\<newline>\<newline>Email: x@y.com\<newline>Phone: 123''"
    from m s show False unfolding e by simp
  qed
  show ?thesis using A B by (rule conjI)
qed


theorem plain_text_is_letter_verbatim_witness:
  "text_write_ok healthy_world
     (txt_filename ''out'' (arg_output \<lparr>arg_output = None, arg_no_pdf = False\<rparr>))
     ''Hello there.\<newline>\<newline>Second para.\<newline>\<newline>Email: x@y.com\<newline>Phone: 123''
   \<and> hd (snd (main healthy_world ''out'' \<lparr>arg_output = None, arg_no_pdf = False\<rparr>
        ''Hello there.\<newline>\<newline>Second para.\<newline>\<newline>Email: x@y.com\<newline>Phone: 123'')) =
       WriteText ''out/coverLetter.txt''
         ''Hello there.\<newline>\<newline>Second para.\<newline>\<newline>Email: x@y.com\<newline>Phone: 123''
   \<and> segment_pdf ''Hello there.\<newline>\<newline>Second para.\<newline>\<newline>Email: x@y.com\<newline>Phone: 123'' =
         [ParagraphBlock ''Hello there.'', ParagraphBlock ''Second para.'',
          ContactBlock [''Email: x@y.com'', ''Phone: 123'']]"
proof -
  let ?a = "\<lparr>arg_output = None, arg_no_pdf = False\<rparr>"
  let ?T = "''Hello there.\<newline>\<newline>Second para.\<newline>\<newline>Email: x@y.com\<newline>Phone: 123''"
  have h: "text_write_ok healthy_world (txt_filename ''out'' (arg_output ?a)) ?T"
    by code_simp
  have p: "txt_filename ''out'' (arg_output ?a) = ''out/coverLetter.txt''" by code_simp
  have "hd (snd (main healthy_world ''out'' ?a ?T)) =
          WriteText (txt_filename ''out'' (arg_output ?a)) ?T"
    using plain_text_is_letter_verbatim [of healthy_world "''out''" ?a ?T] h by blast
  then have w: "hd (snd (main healthy_world ''out'' ?a ?T)) = WriteText ''out/coverLetter.txt'' ?T"
    unfolding p .
  have g: "segment_pdf ?T =
         [ParagraphBlock ''Hello there.'', ParagraphBlock ''Second para.'',
          ContactBlock [''Email: x@y.com'', ''Phone: 123'']]"
    by code_simp
  show ?thesis using h w g by blast
qed

text \<open>
  The letter of the example: its blocks are the two paragraphs and the contact block,
  and the text written is the letter, which has no title line.
\<close>

theorem plain_text_is_letter_verbatim_counterexample:
  "segment_pdf ''Hello there.\<newline>\<newline>Second para.\<newline>\<newline>Email: x@y.com\<newline>Phone: 123'' =
     [ParagraphBlock ''Hello there.'', ParagraphBlock ''Second para.'',
      ContactBlock [''Email: x@y.com'', ''Phone: 123'']]
   \<and> take 1 (snd (main healthy_world ''out'' \<lparr>arg_output = None, arg_no_pdf = False\<rparr>
        ''Hello there.\<newline>\<newline>Second para.\<newline>\<newline>Email: x@y.com\<newline>Phone: 123'')) =
       [WriteText ''out/coverLetter.txt''
         ''Hello there.\<newline>\<newline>Second para.\<newline>\<newline>Email: x@y.com\<newline>Phone: 123'']
   \<and> ''Hello there.\<newline>\<newline>Second para.\<newline>\<newline>Email: x@y.com\<newline>Phone: 123'' \<noteq>
       ''Cover Letter\<newline>\<newline>Hello there.\<newline>\<newline>Second para.\<newline>\<newline>Email: x@y.com\<newline>Phone: 123''"
  by code_simp

end
